theory Spec2Isabelle
  imports Complex_Main
begin

section \<open>Python values and exceptions\<close>

text \<open>
  The exceptions the two scripts can raise. \<open>RpcFailure\<close> stands for whatever the RPC
  client raises on a network failure; the other five are the built-in exceptions raised
  by subscripting, arithmetic, comparison, iteration and \<open>range\<close>.
\<close>

datatype py_error =
    KeyError
  | IndexError
  | TypeError
  | ValueError
  | ZeroDivisionError
  | RpcFailure string

section \<open>daemonFlows/assistants/Utils.py\<close>

subsection \<open>The built-ins the helpers call\<close>

text \<open>
  \<open>range(start, stop, step)\<close>: a zero step raises \<open>ValueError\<close>; a positive step counts
  up while the index is below \<open>stop\<close>, a negative step counts down while it is above.
\<close>

function py_range_from :: "int \<Rightarrow> int \<Rightarrow> int \<Rightarrow> int list" where
  "py_range_from i stop step =
     (if 0 < step \<and> i < stop then i # py_range_from (i + step) stop step
      else if step < 0 \<and> stop < i then i # py_range_from (i + step) stop step
      else [])"
  by pat_completeness auto
termination
  by (relation "measure (\<lambda>(i, stop, step). nat (if 0 < step then stop - i else i - stop))")
     auto

declare py_range_from.simps [simp del]

definition py_range :: "int \<Rightarrow> int \<Rightarrow> int \<Rightarrow> py_error + int list" where
  "py_range start stop step =
     (if step = 0 then Inl ValueError else Inr (py_range_from start stop step))"

text \<open>
  \<open>xs[lo:hi]\<close>: a negative bound counts from the end, and both bounds are clamped to
  \<open>0 .. len(xs)\<close>; a slice never raises.
\<close>

definition py_slice_bound :: "nat \<Rightarrow> int \<Rightarrow> nat" where
  "py_slice_bound n k = (if k < 0 then nat (max (k + int n) 0) else min (nat k) n)"

definition py_slice :: "'a list \<Rightarrow> int \<Rightarrow> int \<Rightarrow> 'a list" where
  "py_slice xs lo hi =
     (let l = py_slice_bound (length xs) lo;
          h = py_slice_bound (length xs) hi
      in take (h - l) (drop l xs))"




subsection \<open>The helpers\<close>



definition chunk_list :: "'a list \<Rightarrow> int \<Rightarrow> py_error + 'a list list" where
  "chunk_list data sz =
     (case py_range 0 (int (length data)) sz of
        Inl e \<Rightarrow> Inl e
      | Inr idxs \<Rightarrow> Inr [py_slice data i (i + sz). i \<leftarrow> idxs])"

definition flatten :: "'a list list \<Rightarrow> 'a list" where
  "flatten list_of_lists = [item. sublist \<leftarrow> list_of_lists, item \<leftarrow> sublist]"





subsection \<open>Chunking, as the specification words it\<close>

text \<open>
  Consecutive chunks of a fixed size \<open>n\<close>: the first \<open>n\<close> elements, then the chunks of
  the rest; the last chunk holds what is left.
\<close>

function chunks_spec :: "nat \<Rightarrow> 'a list \<Rightarrow> 'a list list" where
  "chunks_spec n xs =
     (if n = 0 \<or> xs = [] then [] else take n xs # chunks_spec n (drop n xs))"
  by pat_completeness auto
termination
  by (relation "measure (\<lambda>(n, xs). length xs)") auto

declare chunks_spec.simps [simp del]

section \<open>daemonFlows/jobs/trackFreshMints.py\<close>

subsection \<open>RPC responses\<close>

text \<open>
  The RPC client hands back decoded JSON. A response is a value of \<open>pyval\<close>: \<open>None\<close>,
  a boolean, an integer, a string, a list, or a dictionary with string keys (kept as an
  association list in insertion order; the keys of a Python dictionary are distinct).
  JSON numbers with a fraction (Python floats) are outside the model.
\<close>

datatype pyval =
    PNone
  | PBool bool
  | PInt int
  | PStr string
  | PList "pyval list"
  | PDict "(string \<times> pyval) list"

text \<open>A subscript is a string key (\<open>v["result"]\<close>) or an integer index (\<open>v[1]\<close>).\<close>

datatype py_key = Key string | Index int

text \<open>
  Indexing a sequence: an index below zero counts back from the end, and an index
  outside the sequence raises \<open>IndexError\<close>.
\<close>

definition py_index :: "'a list \<Rightarrow> int \<Rightarrow> py_error + 'a" where
  "py_index xs i =
     (let pos = (if i < 0 then i + int (length xs) else i)
      in if pos < 0 \<or> int (length xs) \<le> pos then Inl IndexError
         else Inr (xs ! nat pos))"

text \<open>
  \<open>v[k]\<close>: a dictionary looks the key up and raises \<open>KeyError\<close> when it is missing
  (an integer is never among its string keys); a list or a string takes an integer index
  and raises \<open>TypeError\<close> on a string key; indexing a string gives the one-character
  string; \<open>None\<close>, booleans and integers are not subscriptable.
\<close>

fun py_getitem :: "pyval \<Rightarrow> py_key \<Rightarrow> py_error + pyval" where
  "py_getitem (PDict kvs) (Key k) =
     (case map_of kvs k of None \<Rightarrow> Inl KeyError | Some v \<Rightarrow> Inr v)"
| "py_getitem (PDict kvs) (Index i) = Inl KeyError"
| "py_getitem (PList xs) (Index i) = py_index xs i"
| "py_getitem (PList xs) (Key k) = Inl TypeError"
| "py_getitem (PStr s) (Index i) =
     (case py_index s i of Inl e \<Rightarrow> Inl e | Inr c \<Rightarrow> Inr (PStr [c]))"
| "py_getitem (PStr s) (Key k) = Inl TypeError"
| "py_getitem PNone k = Inl TypeError"
| "py_getitem (PBool b) k = Inl TypeError"
| "py_getitem (PInt n) k = Inl TypeError"

text \<open>
  \<open>for x in v\<close>: a list yields its elements, a string its characters, a dictionary its
  keys; anything else is not iterable.
\<close>

fun py_iter :: "pyval \<Rightarrow> py_error + pyval list" where
  "py_iter (PList xs) = Inr xs"
| "py_iter (PStr s) = Inr (map (\<lambda>c. PStr [c]) s)"
| "py_iter (PDict kvs) = Inr (map (\<lambda>kv. PStr (fst kv)) kvs)"
| "py_iter PNone = Inl TypeError"
| "py_iter (PBool b) = Inl TypeError"
| "py_iter (PInt n) = Inl TypeError"

text \<open>The numeric reading of a value: integers, and booleans as \<open>0\<close> and \<open>1\<close>.\<close>

fun py_num :: "pyval \<Rightarrow> int option" where
  "py_num (PInt n) = Some n"
| "py_num (PBool b) = Some (if b then 1 else 0)"
| "py_num PNone = None"
| "py_num (PStr s) = None"
| "py_num (PList xs) = None"
| "py_num (PDict kvs) = None"

text \<open>
  \<open>n <= v\<close> and \<open>v <= n\<close> for an integer \<open>n\<close>: defined on numbers, a
  \<open>TypeError\<close> on every other value.
\<close>

definition py_int_le :: "int \<Rightarrow> pyval \<Rightarrow> py_error + bool" where
  "py_int_le n v = (case py_num v of None \<Rightarrow> Inl TypeError | Some m \<Rightarrow> Inr (n \<le> m))"

definition py_le_int :: "pyval \<Rightarrow> int \<Rightarrow> py_error + bool" where
  "py_le_int v n = (case py_num v of None \<Rightarrow> Inl TypeError | Some m \<Rightarrow> Inr (m \<le> n))"

subsection \<open>The RPC client\<close>

text \<open>
  What the two RPC calls of one poll do: each returns a response or raises. The client
  is bound to \<open>RPC_URL\<close>; the network behind it is the environment of the function.
\<close>

record rpc_client =
  get_slot :: "py_error + pyval"
  get_program_accounts :: "string \<Rightarrow> py_error + pyval"

definition PROGRAM_ID :: string where
  "PROGRAM_ID = ''TokenkegQfeZyiNwAJbNbGKPFXCWuBvf9Ss623VQ5DA''"

subsection \<open>track_fresh_mints\<close>

record fresh_mint =
  mint :: pyval
  firstSeenSlot :: pyval

text \<open>
  Lines 15 and 16: \<open>current_slot = client.get_slot()["result"]\<close>, then
  \<open>start_slot = current_slot - lookback_slots\<close>. The subtraction raises \<open>TypeError\<close>
  unless \<open>current_slot\<close> is a number; the pair returned is \<open>start_slot\<close> and the
  numeric reading of \<open>current_slot\<close>, which the comparisons of line 23 use.
\<close>

definition decode_current_slot :: "pyval \<Rightarrow> int \<Rightarrow> py_error + int \<times> int" where
  "decode_current_slot response lookback_slots =
     (case py_getitem response (Key ''result'') of
        Inl e \<Rightarrow> Inl e
      | Inr current_slot \<Rightarrow>
          (case py_num current_slot of
             None \<Rightarrow> Inl TypeError
           | Some cur \<Rightarrow> Inr (cur - lookback_slots, cur)))"

text \<open>Line 22: \<open>slot = acct["account"]["data"][1]\<close>.\<close>

definition acct_slot :: "pyval \<Rightarrow> py_error + pyval" where
  "acct_slot acct =
     (case py_getitem acct (Key ''account'') of
        Inl e \<Rightarrow> Inl e
      | Inr account \<Rightarrow>
          (case py_getitem account (Key ''data'') of
             Inl e \<Rightarrow> Inl e
           | Inr data \<Rightarrow> py_getitem data (Index 1)))"

text \<open>
  Line 23: the chained comparison \<open>start_slot <= slot <= current_slot\<close>; the second
  comparison is evaluated only when the first holds.
\<close>

definition in_window :: "int \<Rightarrow> pyval \<Rightarrow> int \<Rightarrow> py_error + bool" where
  "in_window start_slot slot current_slot =
     (case py_int_le start_slot slot of
        Inl e \<Rightarrow> Inl e
      | Inr below \<Rightarrow> if below then py_le_int slot current_slot else Inr False)"

text \<open>
  Lines 21 to 27: the loop over the accounts, with the list \<open>fresh\<close> it appends to. An
  exception leaves the loop at once.
\<close>

fun scan_accounts ::
  "int \<Rightarrow> int \<Rightarrow> pyval list \<Rightarrow> fresh_mint list \<Rightarrow> py_error + fresh_mint list" where
  "scan_accounts start_slot current_slot [] fresh = Inr fresh"
| "scan_accounts start_slot current_slot (acct # rest) fresh =
     (case acct_slot acct of
        Inl e \<Rightarrow> Inl e
      | Inr slot \<Rightarrow>
          (case in_window start_slot slot current_slot of
             Inl e \<Rightarrow> Inl e
           | Inr inside \<Rightarrow>
               if inside then
                 (case py_getitem acct (Key ''pubkey'') of
                    Inl e \<Rightarrow> Inl e
                  | Inr pubkey \<Rightarrow>
                      scan_accounts start_slot current_slot rest
                        (fresh @ [\<lparr>mint = pubkey, firstSeenSlot = slot\<rparr>]))
               else scan_accounts start_slot current_slot rest fresh))"

text \<open>Lines 19 to 29: the accounts of the response are scanned from an empty list.\<close>

definition decode_accounts :: "int \<Rightarrow> int \<Rightarrow> pyval \<Rightarrow> py_error + fresh_mint list" where
  "decode_accounts start_slot current_slot resp =
     (case py_getitem resp (Key ''result'') of
        Inl e \<Rightarrow> Inl e
      | Inr result \<Rightarrow>
          (case py_iter result of
             Inl e \<Rightarrow> Inl e
           | Inr accts \<Rightarrow> scan_accounts start_slot current_slot accts []))"

definition track_fresh_mints :: "rpc_client \<Rightarrow> int \<Rightarrow> py_error + fresh_mint list" where
  "track_fresh_mints client lookback_slots =
     (case get_slot client of
        Inl e \<Rightarrow> Inl e
      | Inr response \<Rightarrow>
          (case decode_current_slot response lookback_slots of
             Inl e \<Rightarrow> Inl e
           | Inr (start_slot, current_slot) \<Rightarrow>
               (case get_program_accounts client PROGRAM_ID of
                  Inl e \<Rightarrow> Inl e
                | Inr resp \<Rightarrow> decode_accounts start_slot current_slot resp)))"

text \<open>
  The filter, as the specification words it: an account's slot field falls within the
  window, and a record pairs the account's pubkey with that slot.
\<close>

definition slot_in_window :: "int \<Rightarrow> int \<Rightarrow> pyval \<Rightarrow> bool" where
  "slot_in_window lo hi acct =
     (case acct_slot acct of
        Inl e \<Rightarrow> False
      | Inr slot \<Rightarrow> (case py_num slot of None \<Rightarrow> False | Some n \<Rightarrow> lo \<le> n \<and> n \<le> hi))"

definition pairs_account :: "pyval \<Rightarrow> fresh_mint \<Rightarrow> bool" where
  "pairs_account acct m \<longleftrightarrow>
     py_getitem acct (Key ''pubkey'') = Inr (mint m) \<and> acct_slot acct = Inr (firstSeenSlot m)"

text \<open>
  What handling one account raises, read off the operations of lines 22 to 26 one by
  one: the three subscripts of \<open>acct["account"]["data"][1]\<close>, the comparison of the
  slot with the window, and, for a slot inside the window, \<open>acct["pubkey"]\<close>. \<open>None\<close>
  when none of them raises.
\<close>

definition account_error :: "int \<Rightarrow> int \<Rightarrow> pyval \<Rightarrow> py_error option" where
  "account_error lo hi acct =
     (case py_getitem acct (Key ''account'') of
        Inl e \<Rightarrow> Some e
      | Inr account \<Rightarrow>
          (case py_getitem account (Key ''data'') of
             Inl e \<Rightarrow> Some e
           | Inr data \<Rightarrow>
               (case py_getitem data (Index 1) of
                  Inl e \<Rightarrow> Some e
                | Inr slot \<Rightarrow>
                    (case py_num slot of
                       None \<Rightarrow> Some TypeError
                     | Some n \<Rightarrow>
                         if lo \<le> n \<and> n \<le> hi then
                           (case py_getitem acct (Key ''pubkey'') of
                              Inl e \<Rightarrow> Some e
                            | Inr pubkey \<Rightarrow> None)
                         else None))))"

subsection \<open>The program\<close>

text \<open>
  Lines 31 to 37: \<open>while True\<close> polls with the default look-back of 5000 slots, prints
  the number of mints and each mint, and sleeps 300 seconds. What the program does is
  the list of its events. The loop has no exit of its own, so the model runs it for a
  given number of iterations: it is then either still running or has ended with the
  exception that left \<open>track_fresh_mints\<close>. The network answers each poll on its own:
  \<open>network i\<close> is what the RPC calls of iteration \<open>i\<close> do.
\<close>

datatype event = Print_found nat | Print_mint fresh_mint | Sleep nat

datatype outcome = Still_running | Crashed py_error

definition iteration_output :: "fresh_mint list \<Rightarrow> event list" where
  "iteration_output mints = Print_found (length mints) # map Print_mint mints @ [Sleep 300]"

fun main_loop :: "nat \<Rightarrow> (nat \<Rightarrow> rpc_client) \<Rightarrow> nat \<Rightarrow> event list \<times> outcome" where
  "main_loop 0 network i = ([], Still_running)"
| "main_loop (Suc fuel) network i =
     (case track_fresh_mints (network i) 5000 of
        Inl e \<Rightarrow> ([], Crashed e)
      | Inr mints \<Rightarrow>
          (case main_loop fuel network (Suc i) of
             (trace, out) \<Rightarrow> (iteration_output mints @ trace, out)))"

text \<open>The events of the polls \<open>i, \<dots>, i + n - 1\<close> that returned.\<close>

definition polls_output :: "(nat \<Rightarrow> rpc_client) \<Rightarrow> nat \<Rightarrow> nat \<Rightarrow> event list" where
  "polls_output network i n =
     concat (map (\<lambda>j. case track_fresh_mints (network j) 5000 of
                         Inl e \<Rightarrow> []
                       | Inr mints \<Rightarrow> iteration_output mints) [i..<i + n])"

subsection \<open>Fabricated responses\<close>

text \<open>
  Three accounts whose slot fields are 10, 100 and 200, behind a current slot of 150;
  a client whose first call fails; and networks built from the two.
\<close>

definition fabricated_account :: "string \<Rightarrow> int \<Rightarrow> pyval" where
  "fabricated_account pubkey slot =
     PDict [(''pubkey'', PStr pubkey),
            (''account'', PDict [(''data'', PList [PInt 0, PInt slot])])]"

definition fabricated_client :: rpc_client where
  "fabricated_client =
     \<lparr>get_slot = Inr (PDict [(''result'', PInt 150)]),
      get_program_accounts = (\<lambda>program_id. Inr (PDict [(''result'',
         PList [fabricated_account ''mintA'' 10,
                fabricated_account ''mintB'' 100,
                fabricated_account ''mintC'' 200])]))\<rparr>"

definition failing_client :: rpc_client where
  "failing_client =
     \<lparr>get_slot = Inl (RpcFailure ''connection refused''),
      get_program_accounts = (\<lambda>program_id. Inl (RpcFailure ''connection refused''))\<rparr>"

text \<open>
  Malformed responses: a slot response without \<open>result\<close>; an account whose data holds
  one element only; and an account as the RPC service encodes it, its data a pair of a
  base64 string and the name of the encoding.
\<close>

definition resultless_client :: rpc_client where
  "resultless_client =
     \<lparr>get_slot = Inr (PDict [(''error'', PStr ''rate limited'')]),
      get_program_accounts = (\<lambda>program_id. Inr (PDict [(''result'', PList [])]))\<rparr>"

definition short_data_account :: pyval where
  "short_data_account =
     PDict [(''pubkey'', PStr ''mintB''), (''account'', PDict [(''data'', PList [PInt 0])])]"

definition short_data_client :: rpc_client where
  "short_data_client =
     \<lparr>get_slot = Inr (PDict [(''result'', PInt 150)]),
      get_program_accounts = (\<lambda>program_id. Inr (PDict [(''result'',
         PList [fabricated_account ''mintA'' 10, short_data_account])]))\<rparr>"

definition base64_account :: pyval where
  "base64_account =
     PDict [(''pubkey'', PStr ''mintA''),
            (''account'', PDict [(''data'', PList [PStr ''AQAAAA=='', PStr ''base64''])])]"

definition base64_client :: rpc_client where
  "base64_client =
     \<lparr>get_slot = Inr (PDict [(''result'', PInt 150)]),
      get_program_accounts =
        (\<lambda>program_id. Inr (PDict [(''result'', PList [base64_account])]))\<rparr>"

definition steady_network :: "nat \<Rightarrow> rpc_client" where
  "steady_network i = fabricated_client"

definition flaky_network :: "nat \<Rightarrow> rpc_client" where
  "flaky_network i = (if i = 0 then fabricated_client else failing_client)"

section \<open>Properties of the helpers\<close>

subsection \<open>Chunking refines the specification\<close>

lemma slice_chunk:
  assumes "0 \<le> i" "0 < s" "i < int (length data)"
  shows "py_slice data i (i + s) = take (nat s) (drop (nat i) data)"
proof -
  have l: "py_slice_bound (length data) i = nat i"
    using assms by (simp add: py_slice_bound_def)
  have h: "py_slice_bound (length data) (i + s) = min (nat i + nat s) (length data)"
    using assms by (simp add: py_slice_bound_def nat_add_distrib)
  have "take (min (nat i + nat s) (length data) - nat i) (drop (nat i) data)
      = take (nat s) (drop (nat i) data)"
    using assms by (simp add: min_def)
  then show ?thesis by (simp add: py_slice_def l h)
qed

lemma range_chunks:
  "0 < s \<Longrightarrow> 0 \<le> i \<Longrightarrow>
     map (\<lambda>k. py_slice data k (k + s)) (py_range_from i (int (length data)) s)
       = chunks_spec (nat s) (drop (nat i) data)"
proof (induction i "int (length data)" s rule: py_range_from.induct)
  case (1 i s)
  show ?case
  proof (cases "i < int (length data)")
    case True
    have nn: "nat (i + s) = nat i + nat s" using 1 by (simp add: nat_add_distrib)
    have "py_range_from i (int (length data)) s = i # py_range_from (i + s) (int (length data)) s"
      using True 1(3) by (subst py_range_from.simps) simp
    moreover have "chunks_spec (nat s) (drop (nat i) data)
        = take (nat s) (drop (nat i) data) # chunks_spec (nat s) (drop (nat (i + s)) data)"
      using True 1(3,4) by (subst chunks_spec.simps) (simp add: nn add.commute)
    moreover have "map (\<lambda>k. py_slice data k (k + s)) (py_range_from (i + s) (int (length data)) s)
       = chunks_spec (nat s) (drop (nat (i + s)) data)"
      using 1(1) True 1(3,4) by simp
    ultimately show ?thesis using slice_chunk[OF 1(4) 1(3) True] by simp
  next
    case False
    then have "py_range_from i (int (length data)) s = []"
      using 1(3) by (subst py_range_from.simps) simp
    moreover have "chunks_spec (nat s) (drop (nat i) data) = []"
      using False by (subst chunks_spec.simps) simp
    ultimately show ?thesis by simp
  qed
qed

lemma chunk_list_chunks_spec:
  "0 < sz \<Longrightarrow> chunk_list data sz = Inr (chunks_spec (nat sz) data)"
  using range_chunks [of sz 0 data] by (simp add: chunk_list_def py_range_def)

lemma concat_chunks_spec: "0 < n \<Longrightarrow> concat (chunks_spec n xs) = xs"
proof (induction n xs rule: chunks_spec.induct)
  case (1 n xs)
  show ?case
  proof (cases "xs = []")
    case True
    then show ?thesis by (subst chunks_spec.simps) simp
  next
    case False
    then have "concat (chunks_spec n xs) = take n xs @ concat (chunks_spec n (drop n xs))"
      using 1(2) by (subst chunks_spec.simps) simp
    then show ?thesis using 1(1) False 1(2) by simp
  qed
qed

lemma length_chunks_spec: "0 < n \<Longrightarrow> length (chunks_spec n xs) = (length xs + n - 1) div n"
proof (induction n xs rule: chunks_spec.induct)
  case (1 n xs)
  show ?case
  proof (cases xs)
    case Nil
    then show ?thesis using 1(2) by (subst chunks_spec.simps) simp
  next
    case (Cons y ys)
    define m where "m = length ys"
    have len: "length xs = Suc m" by (simp add: Cons m_def)
    have ne: "xs \<noteq> []" by (simp add: Cons)
    have unf: "length (chunks_spec n xs) = Suc (length (chunks_spec n (drop n xs)))"
      using ne 1(2) by (subst chunks_spec.simps) simp
    have ih: "length (chunks_spec n (drop n xs)) = (Suc m - n + n - 1) div n"
      using 1(1) ne 1(2) len by simp
    have rest: "(Suc m - n + n - 1) div n = m div n"
    proof (cases "n \<le> Suc m")
      case True
      then have "Suc m - n + n - 1 = m" by arith
      then show ?thesis by (simp only:)
    next
      case False
      then have "Suc m - n + n - 1 = n - 1" and "m < n" and "n - 1 < n"
        using 1(2) by arith+
      then show ?thesis by (simp only: div_less)
    qed
    have "Suc m + n - 1 = m + n" by arith
    then have whole: "(length xs + n - 1) div n = Suc (m div n)"
      using 1(2) by (simp only: len div_add_self2)
    show ?thesis by (simp only: unf ih rest whole)
  qed
qed

lemma nth_chunks_spec:
  "0 < n \<Longrightarrow> k < length (chunks_spec n xs) \<Longrightarrow>
     chunks_spec n xs ! k = take n (drop (k * n) xs)"
proof (induction n xs arbitrary: k rule: chunks_spec.induct)
  case (1 n xs)
  have ne: "xs \<noteq> []" using 1(3) by (subst (asm) chunks_spec.simps) auto
  have unf: "chunks_spec n xs = take n xs # chunks_spec n (drop n xs)"
    using ne 1(2) by (subst chunks_spec.simps) simp
  show ?case
  proof (cases k)
    case 0
    then show ?thesis using unf by simp
  next
    case (Suc j)
    then have "j < length (chunks_spec n (drop n xs))" using 1(3) unf by simp
    then have "chunks_spec n (drop n xs) ! j = take n (drop (j * n) (drop n xs))"
      using 1(1) ne 1(2) by simp
    then show ?thesis using unf Suc by (simp add: add.commute)
  qed
qed

lemma chunk_list_zero_raises: "chunk_list data 0 = Inl ValueError"
  by (simp add: chunk_list_def py_range_def)

lemma chunk_list_negative: "sz < 0 \<Longrightarrow> chunk_list data sz = Inr []"
  by (simp add: chunk_list_def py_range_def py_range_from.simps)

lemma flatten_concat: "flatten list_of_lists = concat list_of_lists"
  by (simp add: flatten_def)



section \<open>Properties of the poller\<close>

subsection \<open>The window filter\<close>

lemma in_window_True:
  "in_window lo v hi = Inr True \<longleftrightarrow> (\<exists>n. py_num v = Some n \<and> lo \<le> n \<and> n \<le> hi)"
  by (auto simp: in_window_def py_int_le_def py_le_int_def split: option.splits)

lemma in_window_False:
  "in_window lo v hi = Inr False \<longleftrightarrow> (\<exists>n. py_num v = Some n \<and> \<not> (lo \<le> n \<and> n \<le> hi))"
  by (auto simp: in_window_def py_int_le_def py_le_int_def split: option.splits)

lemma scan_accounts_Cons_Inr:
  assumes "scan_accounts lo hi (acct # rest) acc = Inr fresh"
  obtains slot n pubkey where "acct_slot acct = Inr slot" "py_num slot = Some n"
      "lo \<le> n" "n \<le> hi" "py_getitem acct (Key ''pubkey'') = Inr pubkey"
      "scan_accounts lo hi rest (acc @ [\<lparr>mint = pubkey, firstSeenSlot = slot\<rparr>]) = Inr fresh"
    | slot n where "acct_slot acct = Inr slot" "py_num slot = Some n"
      "\<not> (lo \<le> n \<and> n \<le> hi)" "scan_accounts lo hi rest acc = Inr fresh"
proof (cases "acct_slot acct")
  case (Inl e)
  then show ?thesis using assms by simp
next
  case slot: (Inr slot)
  show ?thesis
  proof (cases "in_window lo slot hi")
    case (Inl e)
    then show ?thesis using assms slot by simp
  next
    case (Inr inside)
    show ?thesis
    proof (cases inside)
      case True
      then have "in_window lo slot hi = Inr True" using Inr by simp
      then obtain n where n: "py_num slot = Some n" "lo \<le> n" "n \<le> hi"
        unfolding in_window_True by (elim exE conjE)
      show ?thesis
      proof (cases "py_getitem acct (Key ''pubkey'')")
        case (Inl e)
        then show ?thesis using assms slot Inr True by simp
      next
        case pk: (Inr pubkey)
        then have "scan_accounts lo hi rest (acc @ [\<lparr>mint = pubkey, firstSeenSlot = slot\<rparr>])
            = Inr fresh"
          using assms slot Inr True by simp
        then show ?thesis by (rule that(1) [OF slot n pk])
      qed
    next
      case False
      then have "in_window lo slot hi = Inr False" using Inr by simp
      then obtain n where n: "py_num slot = Some n" "\<not> (lo \<le> n \<and> n \<le> hi)"
        unfolding in_window_False by (elim exE conjE)
      have "scan_accounts lo hi rest acc = Inr fresh"
        using assms slot Inr False by simp
      then show ?thesis by (rule that(2) [OF slot n])
    qed
  qed
qed

lemma scan_accounts_sound:
  "scan_accounts lo hi accts acc = Inr fresh \<Longrightarrow>
     \<exists>new. fresh = acc @ new
       \<and> list_all2 pairs_account (filter (slot_in_window lo hi) accts) new
       \<and> (\<forall>m \<in> set new. \<exists>n. py_num (firstSeenSlot m) = Some n \<and> lo \<le> n \<and> n \<le> hi)"
proof (induction accts arbitrary: acc)
  case Nil
  then show ?case by (intro exI [of _ "[]"]) simp
next
  case (Cons acct rest)
  from Cons.prems show ?case
  proof (cases rule: scan_accounts_Cons_Inr)
    case (1 slot n pubkey)
    define r where "r = \<lparr>mint = pubkey, firstSeenSlot = slot\<rparr>"
    from Cons.IH [OF 1(6)] obtain new where
      new: "fresh = (acc @ [r]) @ new"
        "list_all2 pairs_account (filter (slot_in_window lo hi) rest) new"
        "\<forall>m \<in> set new. \<exists>n. py_num (firstSeenSlot m) = Some n \<and> lo \<le> n \<and> n \<le> hi"
      unfolding r_def by blast
    have keep: "slot_in_window lo hi acct"
      by (simp add: slot_in_window_def 1(1,2,3,4))
    have pr: "pairs_account acct r"
      by (simp add: pairs_account_def r_def 1(1,5))
    have inw: "\<exists>n. py_num (firstSeenSlot r) = Some n \<and> lo \<le> n \<and> n \<le> hi"
      by (simp add: r_def 1(2,3,4))
    have a: "fresh = acc @ (r # new)" by (simp add: new(1))
    have b: "list_all2 pairs_account (filter (slot_in_window lo hi) (acct # rest)) (r # new)"
      by (simp add: keep pr new(2))
    have c: "\<forall>m \<in> set (r # new). \<exists>n. py_num (firstSeenSlot m) = Some n \<and> lo \<le> n \<and> n \<le> hi"
      using inw new(3) by (simp only: list.set ball_simps)
    show ?thesis by (rule exI [of _ "r # new"]) (rule conjI [OF a conjI [OF b c]])
  next
    case (2 slot n)
    have drop: "\<not> slot_in_window lo hi acct"
      using 2(3) by (simp add: slot_in_window_def 2(1,2))
    from Cons.IH [OF 2(4)] obtain new where
      new: "fresh = acc @ new"
        "list_all2 pairs_account (filter (slot_in_window lo hi) rest) new"
        "\<forall>m \<in> set new. \<exists>n. py_num (firstSeenSlot m) = Some n \<and> lo \<le> n \<and> n \<le> hi"
      by blast
    have b: "list_all2 pairs_account (filter (slot_in_window lo hi) (acct # rest)) new"
      by (simp add: drop new(2))
    show ?thesis by (rule exI [of _ new]) (rule conjI [OF new(1) conjI [OF b new(3)]])
  qed
qed

subsection \<open>Where the scan raises\<close>

lemma account_error_cases:
  obtains
    (raises) e where "account_error lo hi acct = Some e" "acct_slot acct = Inl e"
  | (not_number) slot where "account_error lo hi acct = Some TypeError"
      "acct_slot acct = Inr slot" "py_num slot = None"
  | (no_pubkey) slot n e where "account_error lo hi acct = Some e"
      "acct_slot acct = Inr slot" "py_num slot = Some n" "lo \<le> n" "n \<le> hi"
      "py_getitem acct (Key ''pubkey'') = Inl e"
  | (kept) slot n pubkey where "account_error lo hi acct = None"
      "acct_slot acct = Inr slot" "py_num slot = Some n" "lo \<le> n" "n \<le> hi"
      "py_getitem acct (Key ''pubkey'') = Inr pubkey"
  | (outside) slot n where "account_error lo hi acct = None"
      "acct_slot acct = Inr slot" "py_num slot = Some n" "\<not> (lo \<le> n \<and> n \<le> hi)"
proof (cases "py_getitem acct (Key ''account'')")
  case (Inl e)
  then show ?thesis using raises [of e] by (simp add: account_error_def acct_slot_def)
next
  case account: (Inr account)
  show ?thesis
  proof (cases "py_getitem account (Key ''data'')")
    case (Inl e)
    then show ?thesis using raises [of e] account
      by (simp add: account_error_def acct_slot_def)
  next
    case data: (Inr data)
    show ?thesis
    proof (cases "py_getitem data (Index 1)")
      case (Inl e)
      then show ?thesis using raises [of e] account data
        by (simp add: account_error_def acct_slot_def)
    next
      case slot: (Inr slot)
      have sl: "acct_slot acct = Inr slot"
        using account data slot by (simp add: acct_slot_def)
      show ?thesis
      proof (cases "py_num slot")
        case None
        then show ?thesis using not_number [of slot] sl account data slot
          by (simp add: account_error_def)
      next
        case (Some n)
        show ?thesis
        proof (cases "lo \<le> n \<and> n \<le> hi")
          case False
          then show ?thesis using outside [of slot n] sl Some account data slot
            by (simp add: account_error_def)
        next
          case True
          show ?thesis
          proof (cases "py_getitem acct (Key ''pubkey'')")
            case (Inl e)
            then show ?thesis using no_pubkey [of e slot n] sl Some True account data slot
              by (simp add: account_error_def)
          next
            case (Inr pubkey)
            then show ?thesis using kept [of slot n pubkey] sl Some True account data slot
              by (simp add: account_error_def)
          qed
        qed
      qed
    qed
  qed
qed

lemma in_window_eval:
  "py_num slot = Some n \<Longrightarrow> in_window lo slot hi = Inr (lo \<le> n \<and> n \<le> hi)"
  "py_num slot = None \<Longrightarrow> in_window lo slot hi = Inl TypeError"
  by (simp_all add: in_window_def py_int_le_def py_le_int_def)

lemma scan_accounts_raises_at:
  assumes "account_error lo hi acct = Some e"
  shows "scan_accounts lo hi (acct # rest) acc = Inl e"
proof (cases lo hi acct rule: account_error_cases)
  case (raises e')
  then show ?thesis using assms by simp
next
  case (not_number slot)
  then show ?thesis using assms by (simp add: in_window_eval)
next
  case (no_pubkey slot n e')
  have "in_window lo slot hi = Inr True"
    using in_window_eval(1) [OF no_pubkey(3), of lo hi] no_pubkey(4,5) by simp
  then show ?thesis using assms no_pubkey(1,2,6) by simp
next
  case (kept slot n pubkey)
  then show ?thesis using assms by simp
next
  case (outside slot n)
  then show ?thesis using assms by simp
qed

lemma scan_accounts_passes:
  assumes "account_error lo hi acct = None"
  shows "\<exists>acc'. scan_accounts lo hi (acct # rest) acc = scan_accounts lo hi rest acc'"
proof (cases lo hi acct rule: account_error_cases)
  case (raises e')
  then show ?thesis using assms by simp
next
  case (not_number slot)
  then show ?thesis using assms by simp
next
  case (no_pubkey slot n e')
  then show ?thesis using assms by simp
next
  case (kept slot n pubkey)
  have "in_window lo slot hi = Inr True"
    using in_window_eval(1) [OF kept(3), of lo hi] kept(4,5) by simp
  then have "scan_accounts lo hi (acct # rest) acc
      = scan_accounts lo hi rest (acc @ [\<lparr>mint = pubkey, firstSeenSlot = slot\<rparr>])"
    using kept(2,6) by simp
  then show ?thesis by (rule exI)
next
  case (outside slot n)
  have "in_window lo slot hi = Inr False"
    using in_window_eval(1) [OF outside(3), of lo hi] outside(4) by simp
  then have "scan_accounts lo hi (acct # rest) acc = scan_accounts lo hi rest acc"
    using outside(2) by simp
  then show ?thesis by (rule exI)
qed

lemma scan_accounts_raises_iff:
  "scan_accounts lo hi accts acc = Inl e \<longleftrightarrow>
     (\<exists>before acct after. accts = before @ acct # after
        \<and> (\<forall>a \<in> set before. account_error lo hi a = None)
        \<and> account_error lo hi acct = Some e)"
proof (induction accts arbitrary: acc)
  case Nil
  show ?case by simp
next
  case (Cons a rest)
  show ?case
  proof (cases "account_error lo hi a")
    case (Some e')
    have l: "scan_accounts lo hi (a # rest) acc = Inl e'"
      by (rule scan_accounts_raises_at [OF Some])
    have "(\<exists>before acct after. a # rest = before @ acct # after
        \<and> (\<forall>a \<in> set before. account_error lo hi a = None)
        \<and> account_error lo hi acct = Some e) \<longleftrightarrow> e' = e"
    proof
      assume "\<exists>before acct after. a # rest = before @ acct # after
        \<and> (\<forall>a \<in> set before. account_error lo hi a = None)
        \<and> account_error lo hi acct = Some e"
      then obtain before acct after where d: "a # rest = before @ acct # after"
        and ok: "\<forall>a \<in> set before. account_error lo hi a = None"
        and err: "account_error lo hi acct = Some e"
        by (elim exE conjE)
      show "e' = e"
      proof (cases before)
        case Nil
        then have "acct = a" using d by simp
        then show ?thesis using err Some by simp
      next
        case (Cons b bs)
        then have "b = a" using d by simp
        then have "account_error lo hi a = None" using ok Cons by simp
        then show ?thesis using Some by simp
      qed
    next
      assume "e' = e"
      then have "a # rest = [] @ a # rest \<and> (\<forall>x \<in> set []. account_error lo hi x = None)
          \<and> account_error lo hi a = Some e"
        using Some by simp
      then show "\<exists>before acct after. a # rest = before @ acct # after
        \<and> (\<forall>a \<in> set before. account_error lo hi a = None)
        \<and> account_error lo hi acct = Some e"
        by (intro exI)
    qed
    then show ?thesis using l by simp
  next
    case None
    from scan_accounts_passes [OF None, of rest acc] obtain acc' where
      l: "scan_accounts lo hi (a # rest) acc = scan_accounts lo hi rest acc'"
      by (elim exE)
    have "(\<exists>before acct after. a # rest = before @ acct # after
        \<and> (\<forall>a \<in> set before. account_error lo hi a = None)
        \<and> account_error lo hi acct = Some e)
      \<longleftrightarrow> (\<exists>before acct after. rest = before @ acct # after
        \<and> (\<forall>a \<in> set before. account_error lo hi a = None)
        \<and> account_error lo hi acct = Some e)"
    proof
      assume "\<exists>before acct after. a # rest = before @ acct # after
        \<and> (\<forall>a \<in> set before. account_error lo hi a = None)
        \<and> account_error lo hi acct = Some e"
      then obtain before acct after where d: "a # rest = before @ acct # after"
        and ok: "\<forall>a \<in> set before. account_error lo hi a = None"
        and err: "account_error lo hi acct = Some e"
        by (elim exE conjE)
      show "\<exists>before acct after. rest = before @ acct # after
        \<and> (\<forall>a \<in> set before. account_error lo hi a = None)
        \<and> account_error lo hi acct = Some e"
      proof (cases before)
        case Nil
        then have "acct = a" using d by simp
        then show ?thesis using err None by simp
      next
        case (Cons b bs)
        then have "rest = bs @ acct # after \<and> (\<forall>a \<in> set bs. account_error lo hi a = None)
            \<and> account_error lo hi acct = Some e"
          using d ok err by simp
        then show ?thesis by (intro exI)
      qed
    next
      assume "\<exists>before acct after. rest = before @ acct # after
        \<and> (\<forall>a \<in> set before. account_error lo hi a = None)
        \<and> account_error lo hi acct = Some e"
      then obtain before acct after where d: "rest = before @ acct # after"
        and ok: "\<forall>a \<in> set before. account_error lo hi a = None"
        and err: "account_error lo hi acct = Some e"
        by (elim exE conjE)
      have "a # rest = (a # before) @ acct # after
          \<and> (\<forall>x \<in> set (a # before). account_error lo hi x = None)
          \<and> account_error lo hi acct = Some e"
        using d ok err None by simp
      then show "\<exists>before acct after. a # rest = before @ acct # after
        \<and> (\<forall>a \<in> set before. account_error lo hi a = None)
        \<and> account_error lo hi acct = Some e"
        by (intro exI)
    qed
    then show ?thesis using l Cons.IH [of acc'] by simp
  qed
qed

subsection \<open>The driving loop\<close>

lemma polls_output_Suc:
  "track_fresh_mints (network i) 5000 = Inr mints \<Longrightarrow>
     polls_output network i (Suc n) = iteration_output mints @ polls_output network (Suc i) n"
  by (simp add: polls_output_def upt_conv_Cons del: upt_Suc)

lemma main_loop_running:
  "(\<forall>j<n. \<exists>mints. track_fresh_mints (network (i + j)) 5000 = Inr mints) \<Longrightarrow>
     main_loop n network i = (polls_output network i n, Still_running)"
proof (induction n arbitrary: i)
  case 0
  then show ?case by (simp add: polls_output_def)
next
  case (Suc n)
  from Suc.prems [rule_format, of 0] obtain mints where
    m: "track_fresh_mints (network i) 5000 = Inr mints" by auto
  have "\<forall>j<n. \<exists>mints. track_fresh_mints (network (Suc i + j)) 5000 = Inr mints"
    using Suc.prems [rule_format, of "Suc j" for j] by simp
  from Suc.IH [OF this] have rest:
    "main_loop n network (Suc i) = (polls_output network (Suc i) n, Still_running)" .
  show ?case using m rest polls_output_Suc [of network i mints n] by simp
qed

lemma main_loop_crashing:
  "(\<forall>j<k. \<exists>mints. track_fresh_mints (network (i + j)) 5000 = Inr mints) \<Longrightarrow>
   track_fresh_mints (network (i + k)) 5000 = Inl e \<Longrightarrow> k < fuel \<Longrightarrow>
     main_loop fuel network i = (polls_output network i k, Crashed e)"
proof (induction k arbitrary: i fuel)
  case 0
  then obtain f where "fuel = Suc f" by (cases fuel) auto
  then show ?case using 0 by (simp add: polls_output_def)
next
  case (Suc k)
  then obtain f where f: "fuel = Suc f" "k < f" by (cases fuel) auto
  from Suc.prems(1) [rule_format, of 0] obtain mints where
    m: "track_fresh_mints (network i) 5000 = Inr mints" by auto
  have a: "\<forall>j<k. \<exists>mints. track_fresh_mints (network (Suc i + j)) 5000 = Inr mints"
    using Suc.prems(1) [rule_format, of "Suc j" for j] by simp
  have b: "track_fresh_mints (network (Suc i + k)) 5000 = Inl e" using Suc.prems(2) by simp
  from Suc.IH [OF a b f(2)] have rest:
    "main_loop f network (Suc i) = (polls_output network (Suc i) k, Crashed e)" .
  show ?case using m rest f polls_output_Suc [of network i mints k] by simp
qed

lemma polls_output_events:
  assumes "\<forall>j<n. track_fresh_mints (network (i + j)) 5000 = Inr (mints (i + j))"
  shows "polls_output network i n =
     concat (map (\<lambda>j. Print_found (length (mints j)) # map Print_mint (mints j) @ [Sleep 300])
       [i..<i + n])"
proof -
  have "track_fresh_mints (network j) 5000 = Inr (mints j)" if "j \<in> set [i..<i + n]" for j
  proof -
    from that have "i \<le> j" "j - i < n" by auto
    then show ?thesis using assms [rule_format, of "j - i"] by simp
  qed
  then have "map (\<lambda>j. case track_fresh_mints (network j) 5000 of
                         Inl e \<Rightarrow> []
                       | Inr mints \<Rightarrow> iteration_output mints) [i..<i + n]
      = map (\<lambda>j. Print_found (length (mints j)) # map Print_mint (mints j) @ [Sleep 300])
          [i..<i + n]"
    by (intro map_cong refl) (simp add: iteration_output_def)
  then show ?thesis by (simp only: polls_output_def)
qed

section \<open>The properties of the specification\<close>

subsection \<open>The poller\<close>

lemmas poller_defs =
  track_fresh_mints_def decode_current_slot_def decode_accounts_def acct_slot_def
  in_window_def py_int_le_def py_le_int_def py_index_def PROGRAM_ID_def
  fabricated_client_def fabricated_account_def failing_client_def

lemma fabricated_poll:
  "track_fresh_mints fabricated_client 100 = Inr [\<lparr>mint = PStr ''mintB'', firstSeenSlot = PInt 100\<rparr>]"
  by (simp add: poller_defs)

lemma fabricated_poll_default:
  "track_fresh_mints fabricated_client 5000 =
     Inr [\<lparr>mint = PStr ''mintA'', firstSeenSlot = PInt 10\<rparr>,
          \<lparr>mint = PStr ''mintB'', firstSeenSlot = PInt 100\<rparr>]"
  by (simp add: poller_defs)

lemma failing_poll:
  "track_fresh_mints failing_client lookback_slots = Inl (RpcFailure ''connection refused'')"
  by (simp add: track_fresh_mints_def failing_client_def)

lemma decode_current_slot_Inr:
  "decode_current_slot response lookback_slots = Inr (start_slot, current_slot) \<Longrightarrow>
     start_slot = current_slot - lookback_slots
     \<and> (\<exists>v. py_getitem response (Key ''result'') = Inr v \<and> py_num v = Some current_slot)"
  by (simp add: decode_current_slot_def split: sum.splits option.splits)

lemma decode_accounts_Inr:
  "decode_accounts start_slot current_slot resp = Inr fresh \<Longrightarrow>
     \<exists>result accts. py_getitem resp (Key ''result'') = Inr result \<and> py_iter result = Inr accts
        \<and> scan_accounts start_slot current_slot accts [] = Inr fresh"
  by (simp add: decode_accounts_def split: sum.splits)

lemma track_fresh_mints_Inr:
  assumes "track_fresh_mints client lookback_slots = Inr fresh"
  obtains response start_slot current_slot resp where
    "get_slot client = Inr response"
    "decode_current_slot response lookback_slots = Inr (start_slot, current_slot)"
    "get_program_accounts client PROGRAM_ID = Inr resp"
    "decode_accounts start_slot current_slot resp = Inr fresh"
proof (cases "get_slot client")
  case (Inl e)
  then show ?thesis using assms by (simp add: track_fresh_mints_def)
next
  case response: (Inr response)
  show ?thesis
  proof (cases "decode_current_slot response lookback_slots")
    case (Inl e)
    then show ?thesis using assms response by (simp add: track_fresh_mints_def)
  next
    case (Inr window)
    obtain start_slot current_slot where w: "window = (start_slot, current_slot)"
      by (cases window)
    show ?thesis
    proof (cases "get_program_accounts client PROGRAM_ID")
      case (Inl e)
      then show ?thesis using assms response Inr w by (simp add: track_fresh_mints_def)
    next
      case resp: (Inr resp)
      have "decode_accounts start_slot current_slot resp = Inr fresh"
        using assms response Inr w resp by (simp add: track_fresh_mints_def)
      then show ?thesis using that response Inr w resp by simp
    qed
  qed
qed

text \<open>
  Claim C1. Whenever \<open>track_fresh_mints\<close> returns, for any look-back window and any
  RPC responses: both responses decoded, every record returned has a \<open>firstSeenSlot\<close>
  within \<open>[current_slot - lookback_slots, current_slot]\<close>, and the list returned
  corresponds, in order and one to one, to exactly those accounts of the response whose
  slot field \<open>data[1]\<close> falls within that window, each record pairing the account's
  pubkey as \<open>mint\<close> with that slot.
\<close>

theorem track_fresh_mints_window:
  assumes "track_fresh_mints client lookback_slots = Inr fresh"
  shows "\<exists>response v current_slot resp result accts.
           get_slot client = Inr response
         \<and> py_getitem response (Key ''result'') = Inr v \<and> py_num v = Some current_slot
         \<and> get_program_accounts client PROGRAM_ID = Inr resp
         \<and> py_getitem resp (Key ''result'') = Inr result \<and> py_iter result = Inr accts
         \<and> (\<forall>m \<in> set fresh. \<exists>n. py_num (firstSeenSlot m) = Some n
                \<and> current_slot - lookback_slots \<le> n \<and> n \<le> current_slot)
         \<and> list_all2 pairs_account
              (filter (slot_in_window (current_slot - lookback_slots) current_slot) accts) fresh"
proof -
  from assms obtain response start_slot current_slot resp where
    r: "get_slot client = Inr response"
    and d: "decode_current_slot response lookback_slots = Inr (start_slot, current_slot)"
    and p: "get_program_accounts client PROGRAM_ID = Inr resp"
    and a: "decode_accounts start_slot current_slot resp = Inr fresh"
    by (rule track_fresh_mints_Inr)
  from decode_current_slot_Inr [OF d] obtain v where
    s: "start_slot = current_slot - lookback_slots"
    and v: "py_getitem response (Key ''result'') = Inr v" "py_num v = Some current_slot"
    by (elim conjE exE)
  from decode_accounts_Inr [OF a] obtain result accts where
    res: "py_getitem resp (Key ''result'') = Inr result" "py_iter result = Inr accts"
    and sc: "scan_accounts start_slot current_slot accts [] = Inr fresh"
    by (elim conjE exE)
  from scan_accounts_sound [OF sc] obtain new where
    n: "fresh = [] @ new"
    and l: "list_all2 pairs_account (filter (slot_in_window start_slot current_slot) accts) new"
    and w: "\<forall>m \<in> set new. \<exists>n. py_num (firstSeenSlot m) = Some n \<and> start_slot \<le> n \<and> n \<le> current_slot"
    by (elim conjE exE)
  have fresh: "new = fresh" using n by simp
  show ?thesis
    using r v p res l w unfolding fresh s
    by (intro exI conjI)
qed

theorem track_fresh_mints_window_witness:
  "track_fresh_mints fabricated_client 100
     = Inr [\<lparr>mint = PStr ''mintB'', firstSeenSlot = PInt 100\<rparr>]
   \<and> (\<exists>response v current_slot resp result accts.
           get_slot fabricated_client = Inr response
         \<and> py_getitem response (Key ''result'') = Inr v \<and> py_num v = Some current_slot
         \<and> get_program_accounts fabricated_client PROGRAM_ID = Inr resp
         \<and> py_getitem resp (Key ''result'') = Inr result \<and> py_iter result = Inr accts
         \<and> (\<forall>m \<in> set [\<lparr>mint = PStr ''mintB'', firstSeenSlot = PInt 100\<rparr>].
                \<exists>n. py_num (firstSeenSlot m) = Some n
                \<and> current_slot - 100 \<le> n \<and> n \<le> current_slot)
         \<and> list_all2 pairs_account
              (filter (slot_in_window (current_slot - 100) current_slot) accts)
              [\<lparr>mint = PStr ''mintB'', firstSeenSlot = PInt 100\<rparr>])"
  by (rule conjI [OF fabricated_poll track_fresh_mints_window [OF fabricated_poll]])

text \<open>
  Claim C2. With account slots 10, 100 and 200, a current slot of 150 and a look-back of
  100, the window is \<open>[50, 150]\<close> and only the account with slot 100 is kept.
\<close>

theorem fresh_mint_filter_example:
  "track_fresh_mints fabricated_client 100
     = Inr [\<lparr>mint = PStr ''mintB'', firstSeenSlot = PInt 100\<rparr>]"
  by (simp add: poller_defs)

text \<open>
  Claim C6. \<open>track_fresh_mints\<close> handles no error: it raises \<open>e\<close> exactly when one of
  its steps raises \<open>e\<close>, every step before it having succeeded, and the error reaches
  the caller as it was raised. The steps, in order: the call \<open>get_slot\<close>; the subscript
  \<open>["result"]\<close> of its response; the subtraction, a \<open>TypeError\<close> unless the current slot
  is a number; the call \<open>get_program_accounts\<close>; the subscript \<open>["result"]\<close> of its
  response; the iteration over the result; and, account by account, the subscripts and
  the comparison of lines 22 to 26.
\<close>

theorem track_fresh_mints_raises_iff:
  "track_fresh_mints client lookback_slots = Inl e \<longleftrightarrow>
     get_slot client = Inl e
   \<or> (\<exists>response. get_slot client = Inr response \<and>
        (py_getitem response (Key ''result'') = Inl e
       \<or> (\<exists>current_slot. py_getitem response (Key ''result'') = Inr current_slot \<and>
            (py_num current_slot = None \<and> e = TypeError
           \<or> (\<exists>cur. py_num current_slot = Some cur \<and>
                (get_program_accounts client PROGRAM_ID = Inl e
               \<or> (\<exists>resp. get_program_accounts client PROGRAM_ID = Inr resp \<and>
                    (py_getitem resp (Key ''result'') = Inl e
                   \<or> (\<exists>result. py_getitem resp (Key ''result'') = Inr result \<and>
                        (py_iter result = Inl e
                       \<or> (\<exists>accts. py_iter result = Inr accts \<and>
                            (\<exists>before acct after. accts = before @ acct # after
                               \<and> (\<forall>a \<in> set before.
                                     account_error (cur - lookback_slots) cur a = None)
                               \<and> account_error (cur - lookback_slots) cur acct
                                   = Some e))))))))))))"
proof (cases "get_slot client")
  case (Inl e')
  then show ?thesis by (simp add: track_fresh_mints_def)
next
  case response: (Inr response)
  show ?thesis
  proof (cases "py_getitem response (Key ''result'')")
    case (Inl e')
    then show ?thesis using response
      by (simp add: track_fresh_mints_def decode_current_slot_def)
  next
    case current_slot: (Inr current_slot)
    show ?thesis
    proof (cases "py_num current_slot")
      case None
      then show ?thesis using response current_slot
        by (auto simp add: track_fresh_mints_def decode_current_slot_def)
    next
      case cur: (Some cur)
      show ?thesis
      proof (cases "get_program_accounts client PROGRAM_ID")
        case (Inl e')
        then show ?thesis using response current_slot cur
          by (simp add: track_fresh_mints_def decode_current_slot_def)
      next
        case resp: (Inr resp)
        show ?thesis
        proof (cases "py_getitem resp (Key ''result'')")
          case (Inl e')
          then show ?thesis using response current_slot cur resp
            by (simp add: track_fresh_mints_def decode_current_slot_def decode_accounts_def)
        next
          case result: (Inr result)
          show ?thesis
          proof (cases "py_iter result")
            case (Inl e')
            then show ?thesis using response current_slot cur resp result
              by (simp add: track_fresh_mints_def decode_current_slot_def decode_accounts_def)
          next
            case (Inr accts)
            then show ?thesis using response current_slot cur resp result
              by (simp add: track_fresh_mints_def decode_current_slot_def decode_accounts_def
                  scan_accounts_raises_iff)
          qed
        qed
      qed
    qed
  qed
qed

theorem track_fresh_mints_raises_iff_witness:
  "track_fresh_mints failing_client 100 = Inl (RpcFailure ''connection refused'')
   \<and> track_fresh_mints resultless_client 100 = Inl KeyError
   \<and> track_fresh_mints short_data_client 100 = Inl IndexError
   \<and> track_fresh_mints base64_client 100 = Inl TypeError"
proof (intro conjI)
  show "track_fresh_mints failing_client 100 = Inl (RpcFailure ''connection refused'')"
    using track_fresh_mints_raises_iff [of failing_client 100 "RpcFailure ''connection refused''"]
    by (simp add: failing_client_def)
next
  show "track_fresh_mints resultless_client 100 = Inl KeyError"
    using track_fresh_mints_raises_iff [of resultless_client 100 KeyError]
    by (simp add: resultless_client_def)
next
  have ok: "account_error 50 150 (fabricated_account ''mintA'' 10) = None"
    by (simp add: account_error_def fabricated_account_def py_index_def)
  have bad: "account_error 50 150 short_data_account = Some IndexError"
    by (simp add: account_error_def short_data_account_def py_index_def)
  have "[fabricated_account ''mintA'' 10, short_data_account]
          = [fabricated_account ''mintA'' 10] @ short_data_account # []
      \<and> (\<forall>a \<in> set [fabricated_account ''mintA'' 10]. account_error 50 150 a = None)
      \<and> account_error 50 150 short_data_account = Some IndexError"
    using ok bad by simp
  then have "\<exists>before acct after.
      [fabricated_account ''mintA'' 10, short_data_account] = before @ acct # after
      \<and> (\<forall>a \<in> set before. account_error 50 150 a = None)
      \<and> account_error 50 150 acct = Some IndexError"
    by (intro exI)
  then show "track_fresh_mints short_data_client 100 = Inl IndexError"
    using track_fresh_mints_raises_iff [of short_data_client 100 IndexError]
    by (simp add: short_data_client_def)
next
  have bad: "account_error 50 150 base64_account = Some TypeError"
    by (simp add: account_error_def base64_account_def py_index_def)
  have "[base64_account] = [] @ base64_account # []
      \<and> (\<forall>a \<in> set []. account_error 50 150 a = None)
      \<and> account_error 50 150 base64_account = Some TypeError"
    using bad by simp
  then have "\<exists>before acct after. [base64_account] = before @ acct # after
      \<and> (\<forall>a \<in> set before. account_error 50 150 a = None)
      \<and> account_error 50 150 acct = Some TypeError"
    by (intro exI)
  then show "track_fresh_mints base64_client 100 = Inl TypeError"
    using track_fresh_mints_raises_iff [of base64_client 100 TypeError]
    by (simp add: base64_client_def)
qed

text \<open>
  Claim C7, amended. The program loops for as long as \<open>track_fresh_mints\<close> returns:
  iteration \<open>i\<close> calls it with the default look-back of 5000 slots, prints the number of
  mints it returned and each of them, then sleeps 300 seconds; after \<open>n\<close> such
  iterations the output is these events, iteration after iteration, and the program is
  still running. The loop has no exit of its own; it ends only when a call of
  \<open>track_fresh_mints\<close> raises, and the program then ends with that exception, after
  the output of the iterations before it.
\<close>

theorem main_loop_until_error:
  "((\<forall>i<n. track_fresh_mints (network i) 5000 = Inr (mints i))
      \<longrightarrow> main_loop n network 0 =
            (concat (map (\<lambda>i. Print_found (length (mints i)) # map Print_mint (mints i)
                                 @ [Sleep 300]) [0..<n]),
             Still_running))
   \<and> ((\<forall>i<k. track_fresh_mints (network i) 5000 = Inr (mints i))
        \<and> track_fresh_mints (network k) 5000 = Inl e \<and> k < fuel
      \<longrightarrow> main_loop fuel network 0 =
            (concat (map (\<lambda>i. Print_found (length (mints i)) # map Print_mint (mints i)
                                 @ [Sleep 300]) [0..<k]),
             Crashed e))"
proof (intro conjI impI)
  assume a: "\<forall>i<n. track_fresh_mints (network i) 5000 = Inr (mints i)"
  then have "\<forall>j<n. \<exists>ms. track_fresh_mints (network (0 + j)) 5000 = Inr ms" by simp
  from main_loop_running [OF this] polls_output_events [of n network 0 mints] a
  show "main_loop n network 0 =
            (concat (map (\<lambda>i. Print_found (length (mints i)) # map Print_mint (mints i)
                                 @ [Sleep 300]) [0..<n]),
             Still_running)"
    by simp
next
  assume h: "(\<forall>i<k. track_fresh_mints (network i) 5000 = Inr (mints i))
        \<and> track_fresh_mints (network k) 5000 = Inl e \<and> k < fuel"
  then have a: "\<forall>j<k. \<exists>ms. track_fresh_mints (network (0 + j)) 5000 = Inr ms"
    and b: "track_fresh_mints (network (0 + k)) 5000 = Inl e" and c: "k < fuel"
    by simp_all
  from main_loop_crashing [OF a b c] polls_output_events [of k network 0 mints] h
  show "main_loop fuel network 0 =
            (concat (map (\<lambda>i. Print_found (length (mints i)) # map Print_mint (mints i)
                                 @ [Sleep 300]) [0..<k]),
             Crashed e)"
    by simp
qed

theorem main_loop_until_error_witness:
  "track_fresh_mints (steady_network 0) 5000
     = Inr [\<lparr>mint = PStr ''mintA'', firstSeenSlot = PInt 10\<rparr>,
            \<lparr>mint = PStr ''mintB'', firstSeenSlot = PInt 100\<rparr>]
   \<and> track_fresh_mints (steady_network 1) 5000
     = Inr [\<lparr>mint = PStr ''mintA'', firstSeenSlot = PInt 10\<rparr>,
            \<lparr>mint = PStr ''mintB'', firstSeenSlot = PInt 100\<rparr>]
   \<and> main_loop 2 steady_network 0 =
       ([Print_found 2,
         Print_mint \<lparr>mint = PStr ''mintA'', firstSeenSlot = PInt 10\<rparr>,
         Print_mint \<lparr>mint = PStr ''mintB'', firstSeenSlot = PInt 100\<rparr>,
         Sleep 300,
         Print_found 2,
         Print_mint \<lparr>mint = PStr ''mintA'', firstSeenSlot = PInt 10\<rparr>,
         Print_mint \<lparr>mint = PStr ''mintB'', firstSeenSlot = PInt 100\<rparr>,
         Sleep 300],
        Still_running)
   \<and> track_fresh_mints (flaky_network 0) 5000
     = Inr [\<lparr>mint = PStr ''mintA'', firstSeenSlot = PInt 10\<rparr>,
            \<lparr>mint = PStr ''mintB'', firstSeenSlot = PInt 100\<rparr>]
   \<and> track_fresh_mints (flaky_network 1) 5000 = Inl (RpcFailure ''connection refused'')
   \<and> (1::nat) < 3
   \<and> main_loop 3 flaky_network 0 =
       ([Print_found 2,
         Print_mint \<lparr>mint = PStr ''mintA'', firstSeenSlot = PInt 10\<rparr>,
         Print_mint \<lparr>mint = PStr ''mintB'', firstSeenSlot = PInt 100\<rparr>,
         Sleep 300],
        Crashed (RpcFailure ''connection refused''))"
proof -
  define ms :: "nat \<Rightarrow> fresh_mint list" where
    "ms = (\<lambda>i. [\<lparr>mint = PStr ''mintA'', firstSeenSlot = PInt 10\<rparr>,
                 \<lparr>mint = PStr ''mintB'', firstSeenSlot = PInt 100\<rparr>])"
  have s0: "track_fresh_mints (steady_network i) 5000 = Inr (ms i)" for i
    by (simp add: steady_network_def fabricated_poll_default ms_def)
  have f0: "track_fresh_mints (flaky_network 0) 5000 = Inr (ms 0)"
    by (simp add: flaky_network_def fabricated_poll_default ms_def)
  have c: "track_fresh_mints (flaky_network 1) 5000 = Inl (RpcFailure ''connection refused'')"
    by (simp add: flaky_network_def failing_poll)
  have d: "(1::nat) < 3" by simp
  have a: "\<forall>i<2. track_fresh_mints (steady_network i) 5000 = Inr (ms i)"
    by (simp add: s0)
  have b: "\<forall>i<1. track_fresh_mints (flaky_network i) 5000 = Inr (ms i)"
    by (simp add: f0)
  from main_loop_until_error [of 2 steady_network ms 1 "RpcFailure ''connection refused''" 3] a
  have r: "main_loop 2 steady_network 0 =
      (concat (map (\<lambda>i. Print_found (length (ms i)) # map Print_mint (ms i) @ [Sleep 300])
         [0..<2]), Still_running)"
    by blast
  from main_loop_until_error [of 2 flaky_network ms 1 "RpcFailure ''connection refused''" 3] b c d
  have s: "main_loop 3 flaky_network 0 =
      (concat (map (\<lambda>i. Print_found (length (ms i)) # map Print_mint (ms i) @ [Sleep 300])
         [0..<1]), Crashed (RpcFailure ''connection refused''))"
    by blast
  have u2: "[0..<2] = [0, 1]" by (simp add: upt_rec)
  have u1: "[0..<1] = [0]" by simp
  show ?thesis
    using s0 [of 0] s0 [of 1] f0 c d r s unfolding u2 u1 ms_def by simp
qed

text \<open>
  The claim as first worded, that the loop never ends, fails on a network whose second
  poll is refused: the program ends with the exception.
\<close>

theorem main_loop_exits_counterexample:
  "snd (main_loop 2 flaky_network 0) = Crashed (RpcFailure ''connection refused'')"
  by (simp add: numeral_2_eq_2 flaky_network_def fabricated_poll_default failing_poll)

subsection \<open>The helpers\<close>



text \<open>
  Claim C4. For a positive size, \<open>chunk_list\<close> returns the consecutive chunks of that
  size: chunk \<open>k\<close> holds the \<open>size\<close> elements from position \<open>k * size\<close> on, or those
  that are left for the last chunk; the chunks put together are the list; and
  \<open>chunk_list([1,2,3,4,5], 2)\<close> is \<open>[[1,2],[3,4],[5]]\<close>.
\<close>

theorem chunk_list_consecutive:
  "(0 < sz \<longrightarrow>
      (\<exists>cs. chunk_list data sz = Inr cs
         \<and> length cs = (length data + nat sz - 1) div nat sz
         \<and> (\<forall>k < length cs. cs ! k = take (nat sz) (drop (k * nat sz) data))
         \<and> concat cs = data))
   \<and> chunk_list [1, 2, 3, 4, 5 :: int] 2 = Inr [[1, 2], [3, 4], [5]]"
proof (intro conjI impI)
  assume pos: "0 < sz"
  then have n: "0 < nat sz" by simp
  show "\<exists>cs. chunk_list data sz = Inr cs
         \<and> length cs = (length data + nat sz - 1) div nat sz
         \<and> (\<forall>k < length cs. cs ! k = take (nat sz) (drop (k * nat sz) data))
         \<and> concat cs = data"
    using chunk_list_chunks_spec [OF pos] length_chunks_spec [OF n]
      nth_chunks_spec [OF n] concat_chunks_spec [OF n]
    by blast
next
  show "chunk_list [1, 2, 3, 4, 5 :: int] 2 = Inr [[1, 2], [3, 4], [5]]"
    by code_simp
qed

theorem chunk_list_consecutive_witness:
  "(0::int) < 2 \<and>
   (\<exists>cs. chunk_list [10, 20, 30 :: nat] 2 = Inr cs
      \<and> length cs = 2 \<and> cs ! 0 = [10, 20] \<and> cs ! 1 = [30] \<and> concat cs = [10, 20, 30])"
proof -
  have pos: "(0::int) < 2" by simp
  from chunk_list_consecutive [of 2 "[10, 20, 30 :: nat]"] pos
  obtain cs where cs: "chunk_list [10, 20, 30 :: nat] 2 = Inr cs"
    and len: "length cs = (length [10, 20, 30 :: nat] + nat 2 - 1) div nat 2"
    and nth: "\<forall>k < length cs. cs ! k = take (nat 2) (drop (k * nat 2) [10, 20, 30 :: nat])"
    and cat: "concat cs = [10, 20, 30]"
    by blast
  have l2: "length cs = 2" using len by simp
  have "cs ! 0 = [10, 20]" "cs ! 1 = [30]" using nth l2 by simp_all
  then show ?thesis using cs l2 cat by simp
qed

text \<open>
  Claim C5. \<open>flatten\<close> concatenates the sublists, removing one level of nesting and no
  more: lists inside the sublists stay as they are; \<open>flatten([[1,2],[3]])\<close> is
  \<open>[1,2,3]\<close>.
\<close>

theorem flatten_one_level:
  "flatten list_of_lists = concat list_of_lists
   \<and> flatten [[1, 2], [3 :: int]] = [1, 2, 3]
   \<and> flatten [[[1], [2]], [[3 :: int]]] = [[1], [2], [3]]"
  by (simp add: flatten_def)




text \<open>
  Claim C9. For every list and every positive size, chunking returns, and flattening
  the chunks gives the list back.
\<close>

theorem flatten_chunk_list_identity:
  "0 < sz \<Longrightarrow> \<exists>cs. chunk_list data sz = Inr cs \<and> flatten cs = data"
  using chunk_list_chunks_spec [of sz data] concat_chunks_spec [of "nat sz" data]
  by (simp add: flatten_concat)

theorem flatten_chunk_list_identity_witness:
  "(0::int) < 2
   \<and> (\<exists>cs. chunk_list [1, 2, 3, 4, 5 :: int] 2 = Inr cs \<and> flatten cs = [1, 2, 3, 4, 5])"
  using flatten_chunk_list_identity [of 2 "[1, 2, 3, 4, 5 :: int]"] by simp

text \<open>
  Claim C10. For a negative size \<open>chunk_list\<close> returns the empty list, whatever the
  data; for size zero and non-empty data it raises \<open>ValueError\<close>, the error of
  \<open>range\<close> on a zero step, and returns nothing.
\<close>

theorem chunk_list_nonpositive_size:
  "(sz < 0 \<longrightarrow> chunk_list data sz = Inr [])
   \<and> (data \<noteq> [] \<longrightarrow> chunk_list data 0 = Inl ValueError)"
  by (simp add: chunk_list_zero_raises chunk_list_negative)

theorem chunk_list_nonpositive_size_witness:
  "(-2 :: int) < 0 \<and> chunk_list [1, 2, 3 :: int] (-2) = Inr []
   \<and> [1, 2, 3 :: int] \<noteq> [] \<and> chunk_list [1, 2, 3 :: int] 0 = Inl ValueError"
  using chunk_list_nonpositive_size [of "-2" "[1, 2, 3 :: int]"] by simp

end
